theory Spec2Isabelle
  imports Complex_Main
begin

section \<open>The camera capture widget\<close>

text \<open>
  The repository holds two versions of one React component: the stand-alone capture widget
  (\<^verbatim>\<open>src/components/SnapShotCapture.tsx\<close>) and the integrated one that also renders the
  storage uploader. They share the structure of \<^verbatim>\<open>startCamera\<close>, \<^verbatim>\<open>stopCamera\<close>,
  \<^verbatim>\<open>takeSnapshot\<close> and \<^verbatim>\<open>downloadImage\<close> and differ in their message texts, in the file
  name of the download and in one \<^verbatim>\<open>setError(null)\<close>. The model takes the version as a
  parameter.
\<close>

datatype variant = Standalone | Integrated

subsection \<open>The platform: tracks, the video element, the canvas\<close>

text \<open>
  A media stream is a list of tracks; the platform keeps every stream it has granted, and a
  stream handle is its index there. \<^verbatim>\<open>track.stop()\<close> ends a live track and does nothing on
  an ended one.
\<close>

datatype readyState = Live | Ended

fun track_stop :: "readyState \<Rightarrow> readyState" where
  "track_stop Live = Ended"
| "track_stop Ended = Ended"

record video =
  srcObject :: "nat option"
  videoWidth :: nat
  videoHeight :: nat
  currentFrame :: nat

record drawn =
  image :: nat
  dx :: nat
  dy :: nat
  dWidth :: nat
  dHeight :: nat

record canvas =
  width :: nat
  height :: nat
  context2d :: bool
  bitmap :: "drawn option"

record data_url =
  mime :: string
  quality :: real
  pixelWidth :: nat
  pixelHeight :: nat
  pixels :: "drawn option"

record link =
  href :: data_url
  download :: string

text \<open>\<^verbatim>\<open>context.drawImage(video, x, y, w, h)\<close>: the current frame, scaled into the rectangle.\<close>

definition drawImage :: "video \<Rightarrow> nat \<Rightarrow> nat \<Rightarrow> nat \<Rightarrow> nat \<Rightarrow> canvas \<Rightarrow> canvas" where
  "drawImage vid x y w h c =
     c\<lparr>bitmap := Some \<lparr>image = currentFrame vid, dx = x, dy = y, dWidth = w, dHeight = h\<rparr>\<rparr>"

text \<open>\<^verbatim>\<open>canvas.toDataURL(type, quality)\<close>: the canvas's pixels, encoded at the canvas's size.\<close>

definition toDataURL :: "string \<Rightarrow> real \<Rightarrow> canvas \<Rightarrow> data_url" where
  "toDataURL ty q c =
     \<lparr>mime = ty, quality = q, pixelWidth = width c, pixelHeight = height c, pixels = bitmap c\<rparr>"

subsection \<open>The current instant and its ISO string\<close>

text \<open>
  \<^verbatim>\<open>new Date()\<close> by its UTC fields. \<^verbatim>\<open>toISOString()\<close> is the platform's: four digits of
  year for the years 0 to 9999 and a sign with six digits otherwise, then
  \<^verbatim>\<open>-MM-DDTHH:mm:ss.sssZ\<close>.
\<close>

record date =
  year :: int
  month :: nat
  day :: nat
  hours :: nat
  minutes :: nat
  seconds :: nat
  milliseconds :: nat

text \<open>The characters a decimal field is written with.\<close>

definition digits :: "char set" where
  "digits = set ''0123456789''"

definition digit_char :: "nat \<Rightarrow> char" where
  "digit_char d = ''0123456789'' ! (d mod 10)"

definition dec :: "nat \<Rightarrow> nat \<Rightarrow> string" where
  "dec k n = map (\<lambda>i. digit_char (n div 10 ^ i)) (rev [0..<k])"

definition iso_year :: "int \<Rightarrow> string" where
  "iso_year y =
     (if 0 \<le> y \<and> y \<le> 9999 then dec 4 (nat y)
      else (if y < 0 then ''-'' else ''+'') @ dec 6 (nat \<bar>y\<bar>))"

definition toISOString :: "date \<Rightarrow> string" where
  "toISOString d =
     iso_year (year d) @ ''-'' @ dec 2 (month d) @ ''-'' @ dec 2 (day d) @ ''T'' @
     dec 2 (hours d) @ '':'' @ dec 2 (minutes d) @ '':'' @ dec 2 (seconds d) @ ''.'' @
     dec 3 (milliseconds d) @ ''Z''"

text \<open>\<^verbatim>\<open>s.replace('T', '_')\<close> replaces the first occurrence, \<^verbatim>\<open>s.replace(/:/g, '-')\<close> every one.\<close>

fun replace_first :: "char \<Rightarrow> char \<Rightarrow> string \<Rightarrow> string" where
  "replace_first a b [] = []"
| "replace_first a b (c # cs) = (if c = a then b # cs else c # replace_first a b cs)"

definition replace_all :: "char \<Rightarrow> char \<Rightarrow> string \<Rightarrow> string" where
  "replace_all a b cs = map (\<lambda>c. if c = a then b else c) cs"

subsection \<open>The component's state\<close>

text \<open>
  The four \<^verbatim>\<open>useState\<close> cells and the two refs of the component, together with what the
  component reaches in the platform: the granted streams, the log of streams whose source
  the platform has released (a \<^verbatim>\<open>stop()\<close> that ended a live track), the downloads the
  synthesized link has triggered, and the console.
\<close>

record state =
  stream :: "nat option"
  isCameraActive :: bool
  message :: string
  error :: "string option"
  videoRef :: "video option"
  canvasRef :: "canvas option"
  streams :: "readyState list list"
  released :: "nat list"
  downloads :: "link list"
  console :: "string list"

definition initial_message :: "variant \<Rightarrow> string" where
  "initial_message v =
     (case v of
        Standalone \<Rightarrow> ''Click 'Start Camera' to begin.''
      | Integrated \<Rightarrow> ''Click 'Start Camera' to capture, then upload below.'')"

definition mount :: "variant \<Rightarrow> video option \<Rightarrow> canvas option \<Rightarrow> state" where
  "mount v vid cnv =
     \<lparr>stream = None, isCameraActive = False, message = initial_message v, error = None,
      videoRef = vid, canvasRef = cnv, streams = [], released = [], downloads = [],
      console = []\<rparr>"

subsection \<open>The effect: cleanup of the held stream\<close>

text \<open>\<^verbatim>\<open>stream.getTracks().forEach(track => track.stop())\<close>\<close>

definition stopTracks :: "nat \<Rightarrow> state \<Rightarrow> state" where
  "stopTracks i s =
     (if i < length (streams s)
      then s\<lparr>streams := (streams s)[i := map track_stop (streams s ! i)],
             released := released s @ (if Live \<in> set (streams s ! i) then [i] else [])\<rparr>
      else s)"

text \<open>
  The function \<^verbatim>\<open>useEffect\<close> returns, closed over the \<^verbatim>\<open>stream\<close> of the render that
  registered it.
\<close>

definition cleanup :: "nat option \<Rightarrow> state \<Rightarrow> state" where
  "cleanup held s = (case held of None \<Rightarrow> s | Some i \<Rightarrow> stopTracks i s)"

text \<open>
  \<^verbatim>\<open>useEffect(..., [stream])\<close>: when a render finds \<^verbatim>\<open>stream\<close> changed, the cleanup of the
  previous render's effect runs; at unmount the cleanup of the last render's effect runs.
\<close>

definition rerender :: "state \<Rightarrow> state \<Rightarrow> state" where
  "rerender prev next = (if stream next = stream prev then next else cleanup (stream prev) next)"

definition unmount :: "state \<Rightarrow> state" where
  "unmount s = cleanup (stream s) s"

subsection \<open>startCamera and stopCamera\<close>

text \<open>
  What the platform answers to one \<^verbatim>\<open>startCamera\<close>: \<^verbatim>\<open>getUserMedia\<close> rejects, or it
  resolves with a stream of so many live tracks and \<^verbatim>\<open>video.play()\<close> then resolves
  or rejects.
\<close>

datatype camera_env = Rejected | Granted nat bool

definition camera_error :: "variant \<Rightarrow> string" where
  "camera_error v =
     (case v of
        Standalone \<Rightarrow>
          ''Camera access denied or unavailable. Please check permissions or try again.''
      | Integrated \<Rightarrow> ''Camera access denied or unavailable. Please check permissions.'')"

definition camera_active_message :: "variant \<Rightarrow> string" where
  "camera_active_message v =
     (case v of
        Standalone \<Rightarrow> ''Camera active. Say cheese!''
      | Integrated \<Rightarrow> ''Camera active. Click 'Take Snapshot & Download'.'')"

definition camera_stopped_message :: "variant \<Rightarrow> string" where
  "camera_stopped_message v =
     (case v of
        Standalone \<Rightarrow> ''Camera stopped. Click 'Start Camera' to restart.''
      | Integrated \<Rightarrow> ''Camera stopped. Now upload your downloaded file in section 2.'')"

text \<open>The \<^verbatim>\<open>catch\<close> block of \<^verbatim>\<open>startCamera\<close>.\<close>

definition startCamera_catch :: "variant \<Rightarrow> state \<Rightarrow> state" where
  "startCamera_catch v s =
     s\<lparr>console := console s @ [''Error accessing camera:''],
       error := Some (camera_error v),
       message := ''Camera failed to start.'',
       isCameraActive := False\<rparr>"

definition startCamera :: "variant \<Rightarrow> camera_env \<Rightarrow> state \<Rightarrow> state" where
  "startCamera v env s =
     (let s1 = s\<lparr>error := None, message := ''Attempting to access camera...''\<rparr> in
      case env of
        Rejected \<Rightarrow> startCamera_catch v s1
      | Granted n playOk \<Rightarrow>
          (let newStream = length (streams s1);
               s2 = s1\<lparr>streams := streams s1 @ [replicate n Live]\<rparr>;
               s3 = (case videoRef s2 of
                       None \<Rightarrow> s2
                     | Some vid \<Rightarrow> s2\<lparr>videoRef := Some (vid\<lparr>srcObject := Some newStream\<rparr>)\<rparr>)
           in if videoRef s2 \<noteq> None \<and> \<not> playOk then startCamera_catch v s3
              else s3\<lparr>stream := Some newStream,
                      isCameraActive := True,
                      message := camera_active_message v\<rparr>))"

definition stopCamera :: "variant \<Rightarrow> state \<Rightarrow> state" where
  "stopCamera v s =
     (case stream s of
        None \<Rightarrow> s
      | Some i \<Rightarrow>
          (let s1 = stopTracks i s;
               s2 = (case videoRef s1 of
                       None \<Rightarrow> s1
                     | Some vid \<Rightarrow> s1\<lparr>videoRef := Some (vid\<lparr>srcObject := None\<rparr>)\<rparr>)
           in s2\<lparr>stream := None,
                 isCameraActive := False,
                 message := camera_stopped_message v,
                 error := None\<rparr>))"

subsection \<open>downloadImage and takeSnapshot\<close>

definition downloadName :: "variant \<Rightarrow> date \<Rightarrow> string" where
  "downloadName v now =
     (case v of
        Standalone \<Rightarrow> ''snapshot-'' @ take 10 (toISOString now) @ ''.jpg''
      | Integrated \<Rightarrow>
          ''snapshot-'' @
          replace_all (CHR '':'') (CHR ''-'')
            (replace_first (CHR ''T'') (CHR ''_'') (take 19 (toISOString now))) @
          ''.jpg'')"

text \<open>The link is appended to the document, clicked and removed: one download.\<close>

definition downloadImage :: "variant \<Rightarrow> date \<Rightarrow> data_url \<Rightarrow> state \<Rightarrow> state" where
  "downloadImage v now dataUrl s =
     s\<lparr>downloads := downloads s @ [\<lparr>href = dataUrl, download = downloadName v now\<rparr>]\<rparr>"

definition snapshot_message :: "variant \<Rightarrow> string" where
  "snapshot_message v =
     (case v of
        Standalone \<Rightarrow> ''Snapshot captured and downloaded successfully!''
      | Integrated \<Rightarrow>
          ''Snapshot captured and downloaded! Now, upload the file using the Uploader below.'')"

definition takeSnapshot :: "variant \<Rightarrow> date \<Rightarrow> state \<Rightarrow> state" where
  "takeSnapshot v now s =
     (case (isCameraActive s, videoRef s, canvasRef s) of
        (True, Some vid, Some cnv) \<Rightarrow>
          (let cnv1 = cnv\<lparr>width := videoWidth vid, height := videoHeight vid, bitmap := None\<rparr>;
               s1 = s\<lparr>canvasRef := Some cnv1\<rparr>
           in if width cnv1 = 0 \<or> height cnv1 = 0
              then s1\<lparr>error := Some ''Video stream is not ready or has zero dimensions.''\<rparr>
              else if \<not> context2d cnv1
              then s1\<lparr>error := Some ''Could not get 2D rendering context from canvas.''\<rparr>
              else
                (let cnv2 = drawImage vid 0 0 (width cnv1) (height cnv1) cnv1;
                     imageURL = toDataURL ''image/jpeg'' (9 / 10) cnv2;
                     s2 = downloadImage v now imageURL (s1\<lparr>canvasRef := Some cnv2\<rparr>)
                 in case v of
                      Standalone \<Rightarrow> s2\<lparr>message := snapshot_message v\<rparr>
                    | Integrated \<Rightarrow> s2\<lparr>message := snapshot_message v, error := None\<rparr>))
      | _ \<Rightarrow> s\<lparr>error := Some ''Camera is not active or references are missing.''\<rparr>)"

subsection \<open>Sequences of calls\<close>

datatype call = StartCamera camera_env | StopCamera | TakeSnapshot date

fun handler :: "variant \<Rightarrow> call \<Rightarrow> state \<Rightarrow> state" where
  "handler v (StartCamera env) s = startCamera v env s"
| "handler v StopCamera s = stopCamera v s"
| "handler v (TakeSnapshot now) s = takeSnapshot v now s"

text \<open>
  One call: the handler runs, the component renders again, the effect is reconciled. A call is
  one step; for the asynchronous \<^verbatim>\<open>startCamera\<close> a sequence lists the calls in the order
  in which they complete. Nothing in the component keeps a second \<^verbatim>\<open>startCamera\<close> from
  being dispatched while one is pending or while a handle is held.
\<close>

definition step :: "variant \<Rightarrow> call \<Rightarrow> state \<Rightarrow> state" where
  "step v c s = rerender s (handler v c s)"

fun run :: "variant \<Rightarrow> call list \<Rightarrow> state \<Rightarrow> state" where
  "run v [] s = s"
| "run v (c # cs) s = run v cs (step v c s)"

text \<open>Whether a \<^verbatim>\<open>startCamera\<close> reaches the end of its \<^verbatim>\<open>try\<close> block.\<close>

fun start_succeeds :: "camera_env \<Rightarrow> state \<Rightarrow> bool" where
  "start_succeeds Rejected s = False"
| "start_succeeds (Granted n playOk) s = (videoRef s = None \<or> playOk)"

subsection \<open>The storage uploader\<close>

text \<open>
  The props the integrated component passes to the vendor's \<^verbatim>\<open>FileUploader\<close>, and the two
  callbacks it passes: \<^verbatim>\<open>onUploadSuccess\<close> receives the stored object and reads its key,
  \<^verbatim>\<open>onUploadError\<close> receives the failure and logs it.
\<close>

record fileUploaderProps =
  acceptedFileTypes :: "string list"
  path :: string
  maxFileCount :: nat
  isResumable :: bool
  accessLevel :: string

definition fileUploader :: fileUploaderProps where
  "fileUploader =
     \<lparr>acceptedFileTypes = [''image/*''], path = ''picture-submissions/'', maxFileCount = 1,
      isResumable = True, accessLevel = ''public''\<rparr>"

definition onUploadSuccess :: "string \<Rightarrow> state \<Rightarrow> state" where
  "onUploadSuccess key s =
     s\<lparr>message := ''File '' @ [CHR 0x22] @ key @ [CHR 0x22] @
                    '' uploaded successfully to Amplify Storage!'',
       error := None\<rparr>"

definition onUploadError :: "string \<Rightarrow> state \<Rightarrow> state" where
  "onUploadError e s =
     s\<lparr>error := Some ''File upload failed. Check the console for details.'',
       console := console s @ [''FileUploader Error: '' @ e]\<rparr>"

datatype upload_result = Stored string | UploadFailed string

text \<open>
  Modelled from the spec: the upload collaborator is the vendor's component and its code is
  not part of the repository; the spec's contract for it is that on completion it invokes
  the success callback with the stored object's key, or the error callback with the failure.
\<close>

definition upload_completed :: "upload_result \<Rightarrow> state \<Rightarrow> state" where
  "upload_completed r s =
     (case r of Stored key \<Rightarrow> onUploadSuccess key s | UploadFailed e \<Rightarrow> onUploadError e s)"

subsection \<open>Invariants of the session\<close>

text \<open>
  Handles are indices into the platform's streams: the held handle and every logged release
  name a stream the platform has granted.
\<close>

definition handles_valid :: "state \<Rightarrow> bool" where
  "handles_valid s = ((\<forall>i. stream s = Some i \<longrightarrow> i < length (streams s)) \<and>
           (\<forall>i \<in> set (released s). i < length (streams s)))"

text \<open>
  A stream the controller holds untouched: it has tracks, none of them stopped, and no
  release of it is logged. A stream closed once: no track is live and the log has it once.
\<close>

definition untouched :: "nat \<Rightarrow> state \<Rightarrow> bool" where
  "untouched sid s =
     (sid < length (streams s) \<and> streams s ! sid \<noteq> [] \<and> Ended \<notin> set (streams s ! sid) \<and>
      count_list (released s) sid = 0)"

definition closed_once :: "nat \<Rightarrow> state \<Rightarrow> bool" where
  "closed_once sid s =
     (sid < length (streams s) \<and> Live \<notin> set (streams s ! sid) \<and>
      count_list (released s) sid = 1)"

definition tracked :: "nat \<Rightarrow> state \<Rightarrow> bool" where
  "tracked sid s = (handles_valid s \<and> (if stream s = Some sid then untouched sid s else closed_once sid s))"

text \<open>A stream of \<open>n\<close> live tracks that the controller does not hold and has never released.\<close>

definition leaked :: "nat \<Rightarrow> nat \<Rightarrow> state \<Rightarrow> bool" where
  "leaked lid n s =
     (handles_valid s \<and> lid < length (streams s) \<and> stream s \<noteq> Some lid \<and>
      streams s ! lid = replicate n Live \<and> lid \<notin> set (released s))"

subsection \<open>Sample inputs\<close>

text \<open>A video element, a canvas and an instant for the concrete instances below.\<close>

definition sample_video :: video where
  "sample_video = \<lparr>srcObject = None, videoWidth = 640, videoHeight = 480, currentFrame = 7\<rparr>"

definition sample_canvas :: canvas where
  "sample_canvas = \<lparr>width = 300, height = 150, context2d = True, bitmap = None\<rparr>"

definition sample_date :: date where
  "sample_date =
     \<lparr>year = 2024, month = 3, day = 9, hours = 14, minutes = 5, seconds = 59,
      milliseconds = 12\<rparr>"

section \<open>Properties\<close>

subsection \<open>Stopping tracks\<close>

lemma track_stop_not_Live [simp]: "track_stop t \<noteq> Live"
  by (cases t) simp_all

lemma track_stop_image [simp]: "Live \<notin> track_stop ` A"
  by (auto simp: image_iff dest: sym)

lemma track_stop_twice [simp]: "track_stop \<circ> track_stop = track_stop"
proof
  fix t show "(track_stop \<circ> track_stop) t = track_stop t" by (cases t) simp_all
qed

lemma map_track_stop_ended: "Live \<notin> set ts \<Longrightarrow> map track_stop ts = ts"
proof (induction ts)
  case Nil
  show ?case by simp
next
  case (Cons t ts)
  then show ?case by (cases t) simp_all
qed

lemma stopTracks_fields [simp]:
  "stream (stopTracks i s) = stream s"
  "isCameraActive (stopTracks i s) = isCameraActive s"
  "videoRef (stopTracks i s) = videoRef s"
  "canvasRef (stopTracks i s) = canvasRef s"
  "message (stopTracks i s) = message s"
  "error (stopTracks i s) = error s"
  "downloads (stopTracks i s) = downloads s"
  "console (stopTracks i s) = console s"
  "length (streams (stopTracks i s)) = length (streams s)"
  by (simp_all add: stopTracks_def)

lemma stopTracks_streams:
  "streams (stopTracks i s) = (streams s)[i := map track_stop (streams s ! i)]"
  by (simp add: stopTracks_def list_update_beyond)

lemma stopTracks_released:
  "released (stopTracks i s) =
     released s @ (if i < length (streams s) \<and> Live \<in> set (streams s ! i) then [i] else [])"
  by (simp add: stopTracks_def)

lemma stopTracks_twice: "stopTracks i (stopTracks i s) = stopTracks i s"
  by (simp add: stopTracks_def)

lemma cleanup_fields [simp]:
  "stream (cleanup h s) = stream s"
  "isCameraActive (cleanup h s) = isCameraActive s"
  "videoRef (cleanup h s) = videoRef s"
  "error (cleanup h s) = error s"
  "length (streams (cleanup h s)) = length (streams s)"
  by (cases h; simp add: cleanup_def)+

lemma cleanup_twice: "cleanup h (cleanup h s) = cleanup h s"
  by (cases h) (simp_all add: cleanup_def stopTracks_twice)

lemma cleanup_grown:
  assumes "streams t = streams s @ [r]" and "released t = released s"
    and "\<forall>i. h = Some i \<longrightarrow> i < length (streams s)"
  shows "streams (cleanup h t) = streams (cleanup h s) @ [r]"
    and "released (cleanup h t) = released (cleanup h s)"
  using assms
  by (cases h; simp add: cleanup_def stopTracks_streams stopTracks_released list_update_append
      nth_append)+

subsection \<open>What one call does to the session\<close>

lemma stopCamera_held:
  assumes "stream s = Some i"
  shows "stream (stopCamera v s) = None"
    and "isCameraActive (stopCamera v s) = False"
    and "streams (stopCamera v s) = streams (stopTracks i s)"
    and "released (stopCamera v s) = released (stopTracks i s)"
    and "(videoRef (stopCamera v s) = None) = (videoRef s = None)"
  using assms by (simp_all add: stopCamera_def Let_def split: option.splits)

lemma startCamera_fails:
  assumes "\<not> start_succeeds env s"
  shows "stream (startCamera v env s) = stream s"
    and "isCameraActive (startCamera v env s) = False"
    and "error (startCamera v env s) = Some (camera_error v)"
    and "released (startCamera v env s) = released s"
    and "streams (startCamera v env s) =
           streams s @ (case env of Rejected \<Rightarrow> [] | Granted n ok \<Rightarrow> [replicate n Live])"
    and "(videoRef (startCamera v env s) = None) = (videoRef s = None)"
  using assms
  by (cases env; simp add: startCamera_def startCamera_catch_def Let_def split: option.splits)+

lemma startCamera_succeeds:
  assumes "start_succeeds (Granted n ok) s"
  shows "stream (startCamera v (Granted n ok) s) = Some (length (streams s))"
    and "isCameraActive (startCamera v (Granted n ok) s) = True"
    and "streams (startCamera v (Granted n ok) s) = streams s @ [replicate n Live]"
    and "released (startCamera v (Granted n ok) s) = released s"
    and "(videoRef (startCamera v (Granted n ok) s) = None) = (videoRef s = None)"
  using assms
  by (auto simp: startCamera_def Let_def split: option.splits)

lemma takeSnapshot_session:
  "stream (takeSnapshot v now s) = stream s"
  "isCameraActive (takeSnapshot v now s) = isCameraActive s"
  "streams (takeSnapshot v now s) = streams s"
  "released (takeSnapshot v now s) = released s"
  "videoRef (takeSnapshot v now s) = videoRef s"
  by (simp_all add: takeSnapshot_def Let_def downloadImage_def
      split: option.splits bool.splits variant.splits)

lemma step_StopCamera_None: "stream s = None \<Longrightarrow> step v StopCamera s = s"
  by (simp add: step_def rerender_def stopCamera_def)

lemma step_StopCamera_Some:
  assumes "stream s = Some i"
  shows "stream (step v StopCamera s) = None"
    and "isCameraActive (step v StopCamera s) = False"
    and "streams (step v StopCamera s) = streams (stopTracks i s)"
    and "released (step v StopCamera s) = released (stopTracks i s)"
    and "(videoRef (step v StopCamera s) = None) = (videoRef s = None)"
proof -
  let ?t = "stopCamera v s"
  have st: "step v StopCamera s = stopTracks i ?t"
    using assms by (simp add: step_def rerender_def cleanup_def stopCamera_held)
  have len: "i < length (streams s) \<Longrightarrow> (streams s)[i := map track_stop (streams s ! i)] ! i =
      map track_stop (streams s ! i)"
    by simp
  show "stream (step v StopCamera s) = None"
    and "isCameraActive (step v StopCamera s) = False"
    and "(videoRef (step v StopCamera s) = None) = (videoRef s = None)"
    using assms by (simp_all add: st stopCamera_held)
  show "streams (step v StopCamera s) = streams (stopTracks i s)"
    using assms
    by (cases "i < length (streams s)")
       (simp_all add: st stopTracks_streams stopCamera_held list_update_beyond)
  show "released (step v StopCamera s) = released (stopTracks i s)"
    using assms by (simp add: st stopTracks_released stopCamera_held stopTracks_streams)
qed

lemma step_StartCamera_fails:
  assumes "\<not> start_succeeds env s"
  shows "stream (step v (StartCamera env) s) = stream s"
    and "isCameraActive (step v (StartCamera env) s) = False"
    and "error (step v (StartCamera env) s) = Some (camera_error v)"
    and "released (step v (StartCamera env) s) = released s"
    and "streams (step v (StartCamera env) s) =
           streams s @ (case env of Rejected \<Rightarrow> [] | Granted n ok \<Rightarrow> [replicate n Live])"
    and "(videoRef (step v (StartCamera env) s) = None) = (videoRef s = None)"
  using assms by (simp_all add: step_def rerender_def startCamera_fails)

lemma step_StartCamera_succeeds:
  assumes "start_succeeds (Granted n ok) s" and "\<forall>i. stream s = Some i \<longrightarrow> i < length (streams s)"
  shows "stream (step v (StartCamera (Granted n ok)) s) = Some (length (streams s))"
    and "isCameraActive (step v (StartCamera (Granted n ok)) s) = True"
    and "streams (step v (StartCamera (Granted n ok)) s) =
           streams (cleanup (stream s) s) @ [replicate n Live]"
    and "released (step v (StartCamera (Granted n ok)) s) = released (cleanup (stream s) s)"
    and "(videoRef (step v (StartCamera (Granted n ok)) s) = None) = (videoRef s = None)"
proof -
  let ?t = "startCamera v (Granted n ok) s"
  have "stream ?t = Some (length (streams s))"
    using assms(1) by (simp add: startCamera_succeeds)
  moreover have "stream s \<noteq> Some (length (streams s))"
    using assms(2) by auto
  ultimately have ne: "stream ?t \<noteq> stream s"
    by simp
  then have st: "step v (StartCamera (Granted n ok)) s = cleanup (stream s) ?t"
    by (simp add: step_def rerender_def)
  show "stream (step v (StartCamera (Granted n ok)) s) = Some (length (streams s))"
    and "isCameraActive (step v (StartCamera (Granted n ok)) s) = True"
    and "(videoRef (step v (StartCamera (Granted n ok)) s) = None) = (videoRef s = None)"
    using assms(1) by (simp_all add: st startCamera_succeeds)
  show "streams (step v (StartCamera (Granted n ok)) s) =
           streams (cleanup (stream s) s) @ [replicate n Live]"
    unfolding st using assms
    by (intro cleanup_grown) (simp_all add: startCamera_succeeds)
  show "released (step v (StartCamera (Granted n ok)) s) = released (cleanup (stream s) s)"
    unfolding st using assms
    by (intro cleanup_grown(2) [where r = "replicate n Live"]) (simp_all add: startCamera_succeeds)
qed

lemma step_TakeSnapshot:
  "stream (step v (TakeSnapshot now) s) = stream s"
  "isCameraActive (step v (TakeSnapshot now) s) = isCameraActive s"
  "streams (step v (TakeSnapshot now) s) = streams s"
  "released (step v (TakeSnapshot now) s) = released s"
  "videoRef (step v (TakeSnapshot now) s) = videoRef s"
  by (simp_all add: step_def rerender_def takeSnapshot_session)

subsection \<open>Sequences of calls\<close>

lemma step_fields:
  "isCameraActive (step v c s) = isCameraActive (handler v c s)"
  "stream (step v c s) = stream (handler v c s)"
  "videoRef (step v c s) = videoRef (handler v c s)"
  "error (step v c s) = error (handler v c s)"
  by (simp_all add: step_def rerender_def)

lemma videoRef_step: "(videoRef (step v c s) = None) = (videoRef s = None)"
proof (cases c)
  case (StartCamera env)
  show ?thesis
  proof (cases "start_succeeds env s")
    case False
    with StartCamera show ?thesis by (simp add: step_fields startCamera_fails)
  next
    case True
    then obtain n ok where "env = Granted n ok" by (cases env) auto
    with True StartCamera show ?thesis by (simp add: step_fields startCamera_succeeds)
  qed
next
  case StopCamera
  then show ?thesis
    by (cases "stream s") (simp_all add: step_StopCamera_None step_StopCamera_Some)
next
  case (TakeSnapshot now)
  then show ?thesis by (simp add: step_TakeSnapshot)
qed

lemma videoRef_run: "(videoRef (run v cs s) = None) = (videoRef s = None)"
  by (induction cs arbitrary: s) (simp_all add: videoRef_step)

lemma handles_valid_mount: "handles_valid (mount v vid cnv)"
  by (simp add: handles_valid_def mount_def)

lemma handles_valid_stopTracks: "handles_valid s \<Longrightarrow> handles_valid (stopTracks i s)"
  by (auto simp: handles_valid_def stopTracks_released)

lemma handles_valid_cleanup: "handles_valid s \<Longrightarrow> handles_valid (cleanup h s)"
  by (cases h) (simp_all add: cleanup_def handles_valid_stopTracks)

lemma handles_valid_step:
  assumes "handles_valid s"
  shows "handles_valid (step v c s)"
proof (cases c)
  case (StartCamera env)
  show ?thesis
  proof (cases "start_succeeds env s")
    case False
    with assms StartCamera show ?thesis
      by (auto simp: handles_valid_def step_StartCamera_fails split: camera_env.splits)
  next
    case True
    then obtain n ok where env: "env = Granted n ok" by (cases env) auto
    from assms have valid: "\<forall>i. stream s = Some i \<longrightarrow> i < length (streams s)"
      by (simp add: handles_valid_def)
    from assms have "handles_valid (cleanup (stream s) s)" by (rule handles_valid_cleanup)
    moreover have "length (streams (cleanup (stream s) s)) = length (streams s)"
      by (cases "stream s") (simp_all add: cleanup_def)
    ultimately show ?thesis
      using True StartCamera valid unfolding env
      by (auto simp: handles_valid_def step_StartCamera_succeeds)
  qed
next
  case StopCamera
  show ?thesis
  proof (cases "stream s")
    case None
    with assms StopCamera show ?thesis by (simp add: step_StopCamera_None)
  next
    case (Some i)
    from assms have "handles_valid (stopTracks i s)" by (rule handles_valid_stopTracks)
    with Some StopCamera show ?thesis
      by (simp add: handles_valid_def step_StopCamera_Some)
  qed
next
  case (TakeSnapshot now)
  with assms show ?thesis by (simp add: handles_valid_def step_TakeSnapshot)
qed

lemma handles_valid_run: "handles_valid s \<Longrightarrow> handles_valid (run v cs s)"
  by (induction cs arbitrary: s) (simp_all add: handles_valid_step)

subsection \<open>The file name of the download\<close>

lemma digit_char_digit: "digit_char d \<in> digits"
  unfolding digit_char_def digits_def by (rule nth_mem) simp

lemma dec_digits: "set (dec k n) \<subseteq> digits"
  using digit_char_digit by (auto simp: dec_def)

lemma length_dec [simp]: "length (dec k n) = k"
  by (simp add: dec_def)

lemma dec_2: "dec 2 n = [digit_char (n div 10), digit_char n]"
proof -
  have "rev [0..<2] = [1, 0::nat]" by code_simp
  then show ?thesis by (simp add: dec_def)
qed

lemma dec_4:
  "dec 4 n = [digit_char (n div 1000), digit_char (n div 100), digit_char (n div 10), digit_char n]"
proof -
  have "rev [0..<4] = [3, 2, 1, 0::nat]" by code_simp
  then show ?thesis by (simp add: dec_def)
qed

lemma iso_year_chars: "set (iso_year y) \<subseteq> digits \<union> {CHR ''+'', CHR ''-''}"
proof (cases "0 \<le> y \<and> y \<le> 9999")
  case True
  then have "iso_year y = dec 4 (nat y)" by (simp add: iso_year_def)
  with dec_digits [of 4 "nat y"] show ?thesis by auto
next
  case False
  then have "iso_year y = (if y < 0 then ''-'' else ''+'') @ dec 6 (nat \<bar>y\<bar>)"
    unfolding iso_year_def by (rule if_not_P)
  with dec_digits [of 6 "nat \<bar>y\<bar>"] show ?thesis by auto
qed

lemma length_iso_year: "4 \<le> length (iso_year y)"
  by (simp add: iso_year_def)

lemma replace_all_gone: "a \<noteq> b \<Longrightarrow> a \<notin> set (replace_all a b cs)"
  by (auto simp: replace_all_def)

lemma replace_all_chars: "set (replace_all a b cs) \<subseteq> insert b (set cs - {a})"
  by (auto simp: replace_all_def)

lemma replace_first_take: "replace_first a b (take n cs) = take n (replace_first a b cs)"
proof (induction cs arbitrary: n)
  case Nil
  show ?case by simp
next
  case (Cons c cs)
  then show ?case by (cases n) simp_all
qed

lemma replace_first_split: "a \<notin> set p \<Longrightarrow> replace_first a b (p @ a # q) = p @ b # q"
  by (induction p) auto

lemma colon_no_digit: "CHR '':'' \<notin> digits" and T_no_digit: "CHR ''T'' \<notin> digits"
  by (simp_all add: digits_def)

lemma replace_all_id: "a \<notin> set cs \<Longrightarrow> replace_all a b cs = cs"
  by (induction cs) (auto simp: replace_all_def)

lemma replace_all_simps:
  "replace_all a b [] = []"
  "replace_all a b (c # cs) = (if c = a then b else c) # replace_all a b cs"
  by (simp_all add: replace_all_def)

lemma replace_all_append: "replace_all a b (xs @ ys) = replace_all a b xs @ replace_all a b ys"
  by (simp add: replace_all_def)

lemma iso_date_chars:
  "set (iso_year y @ ''-'' @ dec 2 m @ ''-'' @ dec 2 d) \<subseteq> digits \<union> {CHR ''+'', CHR ''-''}"
  using iso_year_chars [of y] dec_digits [of 2 m] dec_digits [of 2 d] by auto

lemma iso_time_chars:
  "set (dec 2 h @ '':'' @ dec 2 m @ '':'' @ dec 2 s) \<subseteq> digits \<union> {CHR '':''}"
  using dec_digits [of 2 h] dec_digits [of 2 m] dec_digits [of 2 s] by auto

lemma toISOString_split:
  "toISOString d =
     (iso_year (year d) @ ''-'' @ dec 2 (month d) @ ''-'' @ dec 2 (day d)) @
     CHR ''T'' #
     (dec 2 (hours d) @ '':'' @ dec 2 (minutes d) @ '':'' @ dec 2 (seconds d)) @
     (''.'' @ dec 3 (milliseconds d) @ ''Z'')"
  by (simp add: toISOString_def)

lemma take_prefix: "n \<le> length xs \<Longrightarrow> take n (xs @ ys) = take n xs"
  by simp

lemma take_10_toISOString:
  "take 10 (toISOString d) =
     take 10 (iso_year (year d) @ ''-'' @ dec 2 (month d) @ ''-'' @ dec 2 (day d))"
proof -
  have "10 \<le> length (iso_year (year d) @ ''-'' @ dec 2 (month d) @ ''-'' @ dec 2 (day d))"
    using length_iso_year [of "year d"] by simp
  then show ?thesis unfolding toISOString_split by (rule take_prefix)
qed

lemma take_19_toISOString:
  "replace_first (CHR ''T'') (CHR ''_'') (take 19 (toISOString d)) =
     take 19 ((iso_year (year d) @ ''-'' @ dec 2 (month d) @ ''-'' @ dec 2 (day d)) @
              CHR ''_'' #
              (dec 2 (hours d) @ '':'' @ dec 2 (minutes d) @ '':'' @ dec 2 (seconds d)))"
proof -
  let ?p = "iso_year (year d) @ ''-'' @ dec 2 (month d) @ ''-'' @ dec 2 (day d)"
  let ?q = "dec 2 (hours d) @ '':'' @ dec 2 (minutes d) @ '':'' @ dec 2 (seconds d)"
  let ?r = "''.'' @ dec 3 (milliseconds d) @ ''Z''"
  have "CHR ''T'' \<notin> set ?p"
    using iso_date_chars [of "year d" "month d" "day d"] T_no_digit by auto
  then have "replace_first (CHR ''T'') (CHR ''_'') (?p @ CHR ''T'' # (?q @ ?r)) =
      ?p @ CHR ''_'' # (?q @ ?r)"
    by (rule replace_first_split)
  then have "replace_first (CHR ''T'') (CHR ''_'') (toISOString d) = ?p @ CHR ''_'' # (?q @ ?r)"
    by (simp only: toISOString_split)
  then have "replace_first (CHR ''T'') (CHR ''_'') (take 19 (toISOString d)) =
      take 19 (?p @ CHR ''_'' # (?q @ ?r))"
    by (simp only: replace_first_take)
  also have "?p @ CHR ''_'' # (?q @ ?r) = (?p @ CHR ''_'' # ?q) @ ?r"
    by simp
  also have "take 19 ((?p @ CHR ''_'' # ?q) @ ?r) = take 19 (?p @ CHR ''_'' # ?q)"
  proof (rule take_prefix)
    show "19 \<le> length (?p @ CHR ''_'' # ?q)"
      using length_iso_year [of "year d"] by simp
  qed
  finally show ?thesis .
qed

lemma downloadName_body:
  "\<exists>body. downloadName v now = ''snapshot-'' @ body @ ''.jpg'' \<and>
          set body \<subseteq> digits \<union> {CHR ''-'', CHR ''_'', CHR ''+''}"
proof (cases v)
  case Standalone
  have "set (take 10 (toISOString now)) \<subseteq> digits \<union> {CHR ''-'', CHR ''_'', CHR ''+''}"
    unfolding take_10_toISOString
    using iso_date_chars [of "year now" "month now" "day now"] set_take_subset by fastforce
  with Standalone show ?thesis by (simp add: downloadName_def)
next
  case Integrated
  let ?b = "replace_all (CHR '':'') (CHR ''-'')
              (replace_first (CHR ''T'') (CHR ''_'') (take 19 (toISOString now)))"
  have "set (replace_first (CHR ''T'') (CHR ''_'') (take 19 (toISOString now))) \<subseteq>
          digits \<union> {CHR ''-'', CHR ''_'', CHR ''+'', CHR '':''}"
    unfolding take_19_toISOString
    using iso_date_chars [of "year now" "month now" "day now"]
      iso_time_chars [of "hours now" "minutes now" "seconds now"]
      set_take_subset [of 19]
    by (rule_tac subset_trans [OF set_take_subset]) auto
  then have "set ?b \<subseteq> digits \<union> {CHR ''-'', CHR ''_'', CHR ''+''}"
    using replace_all_chars [of "CHR '':''" "CHR ''-''"] by fastforce
  with Integrated show ?thesis by (simp add: downloadName_def)
qed

lemma downloadName_no_colon: "CHR '':'' \<notin> set (downloadName v now)"
proof -
  obtain body where b: "downloadName v now = ''snapshot-'' @ body @ ''.jpg''"
    and s: "set body \<subseteq> digits \<union> {CHR ''-'', CHR ''_'', CHR ''+''}"
    using downloadName_body by blast
  from s colon_no_digit have "CHR '':'' \<notin> set body" by auto
  then show ?thesis by (simp add: b)
qed

lemma downloadName_four_digit_year:
  assumes "0 \<le> year now" and "year now \<le> 9999"
  shows "downloadName Standalone now =
           ''snapshot-'' @ dec 4 (nat (year now)) @ ''-'' @ dec 2 (month now) @ ''-'' @
           dec 2 (day now) @ ''.jpg''"
    and "downloadName Integrated now =
           ''snapshot-'' @ dec 4 (nat (year now)) @ ''-'' @ dec 2 (month now) @ ''-'' @
           dec 2 (day now) @ ''_'' @ dec 2 (hours now) @ ''-'' @ dec 2 (minutes now) @ ''-'' @
           dec 2 (seconds now) @ ''.jpg''"
proof -
  from assms have y: "iso_year (year now) = dec 4 (nat (year now))"
    by (simp add: iso_year_def)
  show "downloadName Standalone now =
           ''snapshot-'' @ dec 4 (nat (year now)) @ ''-'' @ dec 2 (month now) @ ''-'' @
           dec 2 (day now) @ ''.jpg''"
    by (simp add: downloadName_def take_10_toISOString y)
  have nc: "CHR '':'' \<notin> set (dec k n)" for k n
    using dec_digits [of k n] colon_no_digit by auto
  show "downloadName Integrated now =
           ''snapshot-'' @ dec 4 (nat (year now)) @ ''-'' @ dec 2 (month now) @ ''-'' @
           dec 2 (day now) @ ''_'' @ dec 2 (hours now) @ ''-'' @ dec 2 (minutes now) @ ''-'' @
           dec 2 (seconds now) @ ''.jpg''"
    by (simp add: downloadName_def take_19_toISOString y replace_all_append
        replace_all_simps replace_all_id [OF nc])
qed

subsection \<open>Release of a session\<close>

lemma all_live: "ts \<noteq> [] \<Longrightarrow> Ended \<notin> set ts \<Longrightarrow> Live \<in> set ts"
proof (cases ts)
  case Nil
  assume "ts \<noteq> []"
  with Nil show ?thesis by simp
next
  case (Cons t ts')
  assume "Ended \<notin> set ts"
  with Cons show ?thesis by (cases t) simp_all
qed

lemma stopTracks_closes:
  assumes "untouched sid s"
  shows "closed_once sid (stopTracks sid s)"
proof -
  from assms have "Live \<in> set (streams s ! sid)"
    by (simp add: untouched_def all_live)
  with assms show ?thesis
    by (simp add: untouched_def closed_once_def stopTracks_streams stopTracks_released)
qed

lemma stopTracks_other:
  assumes "j \<noteq> sid"
  shows "untouched sid (stopTracks j s) = untouched sid s"
    and "closed_once sid (stopTracks j s) = closed_once sid s"
  using assms
  by (simp_all add: untouched_def closed_once_def stopTracks_streams stopTracks_released)

lemma closed_once_cleanup_held:
  assumes "tracked sid s"
  shows "closed_once sid (cleanup (stream s) s)"
proof (cases "stream s")
  case None
  with assms show ?thesis by (simp add: tracked_def cleanup_def)
next
  case (Some j)
  show ?thesis
  proof (cases "j = sid")
    case True
    with assms Some show ?thesis by (simp add: tracked_def cleanup_def stopTracks_closes)
  next
    case False
    with assms Some show ?thesis by (simp add: tracked_def cleanup_def stopTracks_other)
  qed
qed

lemma closed_once_grown:
  assumes "closed_once sid s" and "streams t = streams s @ r" and "released t = released s"
  shows "closed_once sid t"
  using assms by (simp add: closed_once_def nth_append)

lemma untouched_grown:
  assumes "untouched sid s" and "streams t = streams s @ r" and "released t = released s"
  shows "untouched sid t"
  using assms by (simp add: untouched_def nth_append)

lemma tracked_step:
  assumes "tracked sid s"
  shows "tracked sid (step v c s)"
proof -
  from assms have wfs: "handles_valid s" by (simp add: tracked_def)
  then have wf': "handles_valid (step v c s)" by (rule handles_valid_step)
  from wfs have valid: "\<forall>i. stream s = Some i \<longrightarrow> i < length (streams s)"
    by (simp add: handles_valid_def)
  from assms have sid: "sid < length (streams s)"
    by (auto simp: tracked_def untouched_def closed_once_def split: if_splits)
  show ?thesis
  proof (cases c)
    case (StartCamera env)
    show ?thesis
    proof (cases "start_succeeds env s")
      case False
      let ?t = "step v (StartCamera env) s"
      have g: "streams ?t = streams s @ (case env of Rejected \<Rightarrow> [] | Granted n ok \<Rightarrow> [replicate n Live])"
        "released ?t = released s" "stream ?t = stream s"
        using False by (simp_all add: step_StartCamera_fails)
      from assms have "if stream s = Some sid then untouched sid ?t else closed_once sid ?t"
        using untouched_grown [OF _ g(1,2)] closed_once_grown [OF _ g(1,2)]
        by (simp add: tracked_def)
      with wf' g(3) StartCamera show ?thesis by (simp add: tracked_def)
    next
      case True
      then obtain n ok where env: "env = Granted n ok" by (cases env) auto
      let ?t = "step v (StartCamera (Granted n ok)) s"
      from True have ok: "start_succeeds (Granted n ok) s" by (simp add: env)
      have g: "streams ?t = streams (cleanup (stream s) s) @ [replicate n Live]"
        "released ?t = released (cleanup (stream s) s)"
        "stream ?t = Some (length (streams s))"
        using ok valid by (simp_all add: step_StartCamera_succeeds)
      from assms have "closed_once sid (cleanup (stream s) s)"
        by (rule closed_once_cleanup_held)
      then have "closed_once sid ?t" using g(1,2) by (rule closed_once_grown)
      moreover from sid g(3) have "stream ?t \<noteq> Some sid" by simp
      ultimately show ?thesis using wf' StartCamera by (simp add: tracked_def env)
    qed
  next
    case StopCamera
    show ?thesis
    proof (cases "stream s")
      case None
      with assms StopCamera show ?thesis by (simp add: step_StopCamera_None)
    next
      case (Some j)
      from assms have "closed_once sid (cleanup (stream s) s)"
        by (rule closed_once_cleanup_held)
      then have "closed_once sid (step v StopCamera s)"
        using Some by (simp add: closed_once_def cleanup_def step_StopCamera_Some)
      with wf' Some StopCamera show ?thesis by (simp add: tracked_def step_StopCamera_Some)
    qed
  next
    case (TakeSnapshot now)
    with assms wf' show ?thesis
      by (auto simp: tracked_def untouched_def closed_once_def step_TakeSnapshot
          split: if_splits)
  qed
qed

lemma tracked_run: "tracked sid s \<Longrightarrow> tracked sid (run v cs s)"
  by (induction cs arbitrary: s) (simp_all add: tracked_step)

lemma tracked_unmount: "tracked sid s \<Longrightarrow> closed_once sid (unmount s)"
  unfolding unmount_def by (rule closed_once_cleanup_held)

lemma released_fresh:
  assumes "handles_valid s"
  shows "count_list (released s) (length (streams s)) = 0"
proof -
  from assms have "length (streams s) \<notin> set (released s)" by (auto simp: handles_valid_def)
  then show ?thesis by (simp add: count_list_0_iff)
qed

lemma tracked_start:
  assumes "handles_valid s" and "start_succeeds (Granted n ok) s" and "0 < n"
  shows "tracked (length (streams s)) (step v (StartCamera (Granted n ok)) s)"
proof -
  let ?t = "step v (StartCamera (Granted n ok)) s"
  from assms(1) have valid: "\<forall>i. stream s = Some i \<longrightarrow> i < length (streams s)"
    by (simp add: handles_valid_def)
  have g: "streams ?t = streams (cleanup (stream s) s) @ [replicate n Live]"
    "released ?t = released (cleanup (stream s) s)"
    "stream ?t = Some (length (streams s))"
    using assms(2) valid by (simp_all add: step_StartCamera_succeeds)
  have "handles_valid (cleanup (stream s) s)" using assms(1) by (rule handles_valid_cleanup)
  then have "count_list (released (cleanup (stream s) s)) (length (streams s)) = 0"
    using released_fresh [of "cleanup (stream s) s"] by simp
  with g assms(3) have "untouched (length (streams s)) ?t"
    by (simp add: untouched_def nth_append)
  moreover from assms(1) have "handles_valid ?t" by (rule handles_valid_step)
  ultimately show ?thesis using g(3) by (simp add: tracked_def)
qed

lemma leaked_cleanup:
  assumes "leaked lid n s"
  shows "streams (cleanup (stream s) s) ! lid = replicate n Live"
    and "lid \<notin> set (released (cleanup (stream s) s))"
proof -
  show "streams (cleanup (stream s) s) ! lid = replicate n Live"
  proof (cases "stream s")
    case None
    with assms show ?thesis by (simp add: leaked_def cleanup_def)
  next
    case (Some j)
    with assms have "j \<noteq> lid" by (auto simp: leaked_def)
    with assms Some show ?thesis by (simp add: leaked_def cleanup_def stopTracks_streams)
  qed
  show "lid \<notin> set (released (cleanup (stream s) s))"
  proof (cases "stream s")
    case None
    with assms show ?thesis by (simp add: leaked_def cleanup_def)
  next
    case (Some j)
    with assms have "j \<noteq> lid" by (auto simp: leaked_def)
    with assms Some show ?thesis by (simp add: leaked_def cleanup_def stopTracks_released)
  qed
qed

lemma leaked_step:
  assumes "leaked lid n s"
  shows "leaked lid n (step v c s)"
proof -
  from assms have wfs: "handles_valid s" and lid: "lid < length (streams s)"
    by (simp_all add: leaked_def)
  from wfs have wf': "handles_valid (step v c s)" by (rule handles_valid_step)
  from wfs have valid: "\<forall>i. stream s = Some i \<longrightarrow> i < length (streams s)"
    by (simp add: handles_valid_def)
  show ?thesis
  proof (cases c)
    case (StartCamera env)
    show ?thesis
    proof (cases "start_succeeds env s")
      case False
      with assms wf' StartCamera show ?thesis
        by (simp add: leaked_def step_StartCamera_fails nth_append)
    next
      case True
      then obtain m ok where env: "env = Granted m ok" by (cases env) auto
      from True have ok: "start_succeeds (Granted m ok) s" by (simp add: env)
      from lid leaked_cleanup [OF assms] wf' StartCamera show ?thesis
        by (simp add: leaked_def env step_StartCamera_succeeds [OF ok valid] nth_append)
    qed
  next
    case StopCamera
    show ?thesis
    proof (cases "stream s")
      case None
      with assms StopCamera show ?thesis by (simp add: step_StopCamera_None)
    next
      case (Some j)
      with lid leaked_cleanup [OF assms] wf' StopCamera show ?thesis
        by (simp add: leaked_def cleanup_def step_StopCamera_Some)
    qed
  next
    case (TakeSnapshot now)
    with assms wf' show ?thesis by (simp add: leaked_def step_TakeSnapshot)
  qed
qed

lemma leaked_run: "leaked lid n s \<Longrightarrow> leaked lid n (run v cs s)"
  by (induction cs arbitrary: s) (simp_all add: leaked_step)

lemma leaked_start:
  assumes "handles_valid s" and "videoRef s \<noteq> None"
  shows "leaked (length (streams s)) n (step v (StartCamera (Granted n False)) s)"
proof -
  have f: "\<not> start_succeeds (Granted n False) s" using assms(2) by simp
  from assms(1) have "handles_valid (step v (StartCamera (Granted n False)) s)" by (rule handles_valid_step)
  moreover from assms(1) have "stream s \<noteq> Some (length (streams s))"
    and "length (streams s) \<notin> set (released s)"
    by (auto simp: handles_valid_def)
  ultimately show ?thesis
    by (simp add: leaked_def step_StartCamera_fails [OF f])
qed

subsection \<open>Evaluation on concrete inputs\<close>

lemmas evals = run.simps handler.simps step_def rerender_def cleanup_def stopTracks_def
  startCamera_def startCamera_catch_def stopCamera_def takeSnapshot_def Let_def mount_def
  drawImage_def toDataURL_def downloadImage_def unmount_def sample_video_def sample_canvas_def

section \<open>The claims\<close>

text \<open>
  Claim C1. The claim is that after every sequence of \<^verbatim>\<open>startCamera\<close> and \<^verbatim>\<open>stopCamera\<close>
  calls the flag is on if and only if a stream handle is held. The code departs from it:
  when one \<^verbatim>\<open>startCamera\<close> has stored a stream and a second one then fails, the \<^verbatim>\<open>catch\<close>
  block turns the flag off and shows the camera error, but neither stops nor clears the
  stream that is held. In both versions of the component the run ends with the flag off,
  the handle still held, its track live and nothing released.
\<close>

theorem failed_start_keeps_handle_held:
  "\<not> isCameraActive (run Standalone [StartCamera (Granted 1 True), StartCamera Rejected]
        (mount Standalone (Some sample_video) (Some sample_canvas))) \<and>
   stream (run Standalone [StartCamera (Granted 1 True), StartCamera Rejected]
        (mount Standalone (Some sample_video) (Some sample_canvas))) = Some 0 \<and>
   streams (run Standalone [StartCamera (Granted 1 True), StartCamera Rejected]
        (mount Standalone (Some sample_video) (Some sample_canvas))) = [[Live]] \<and>
   released (run Standalone [StartCamera (Granted 1 True), StartCamera Rejected]
        (mount Standalone (Some sample_video) (Some sample_canvas))) = [] \<and>
   error (run Standalone [StartCamera (Granted 1 True), StartCamera Rejected]
        (mount Standalone (Some sample_video) (Some sample_canvas))) =
     Some (camera_error Standalone) \<and>
   \<not> isCameraActive (run Integrated [StartCamera (Granted 1 True), StartCamera Rejected]
        (mount Integrated (Some sample_video) (Some sample_canvas))) \<and>
   stream (run Integrated [StartCamera (Granted 1 True), StartCamera Rejected]
        (mount Integrated (Some sample_video) (Some sample_canvas))) = Some 0 \<and>
   streams (run Integrated [StartCamera (Granted 1 True), StartCamera Rejected]
        (mount Integrated (Some sample_video) (Some sample_canvas))) = [[Live]]"
  by (simp add: evals)

text \<open>
  Claim C2. In a state where the flag is off, or the video reference or the canvas reference
  is missing, \<^verbatim>\<open>takeSnapshot\<close> only sets the error message "Camera is not active or
  references are missing.": the canvas holds no new image and no download is triggered.
  With the flag on and both references present but a natural width or height of zero, it
  sets "Video stream is not ready or has zero dimensions.", the canvas is resized and left
  blank, and no download is triggered. These two messages are the not-ready failures.
\<close>

theorem takeSnapshot_not_ready:
  "(\<not> isCameraActive s \<or> videoRef s = None \<or> canvasRef s = None \<longrightarrow>
      takeSnapshot v now s =
        s\<lparr>error := Some ''Camera is not active or references are missing.''\<rparr>) \<and>
   (isCameraActive s \<and> videoRef s = Some vid \<and> canvasRef s = Some cnv \<and>
      (videoWidth vid = 0 \<or> videoHeight vid = 0) \<longrightarrow>
      takeSnapshot v now s =
        s\<lparr>canvasRef := Some (cnv\<lparr>width := videoWidth vid, height := videoHeight vid,
                                  bitmap := None\<rparr>),
          error := Some ''Video stream is not ready or has zero dimensions.''\<rparr>)"
  by (auto simp: takeSnapshot_def Let_def split: option.splits bool.splits)

theorem takeSnapshot_not_ready_witness:
  "takeSnapshot Integrated sample_date (mount Integrated (Some sample_video) (Some sample_canvas)) =
     (mount Integrated (Some sample_video) (Some sample_canvas))
       \<lparr>error := Some ''Camera is not active or references are missing.''\<rparr> \<and>
   downloads (takeSnapshot Integrated sample_date
     (mount Integrated (Some sample_video) (Some sample_canvas))) = [] \<and>
   isCameraActive (run Standalone [StartCamera (Granted 1 True)]
     (mount Standalone (Some (sample_video\<lparr>videoHeight := 0\<rparr>)) (Some sample_canvas))) \<and>
   error (takeSnapshot Standalone sample_date
     (run Standalone [StartCamera (Granted 1 True)]
       (mount Standalone (Some (sample_video\<lparr>videoHeight := 0\<rparr>)) (Some sample_canvas)))) =
     Some ''Video stream is not ready or has zero dimensions.'' \<and>
   downloads (takeSnapshot Standalone sample_date
     (run Standalone [StartCamera (Granted 1 True)]
       (mount Standalone (Some (sample_video\<lparr>videoHeight := 0\<rparr>)) (Some sample_canvas)))) = []"
  using takeSnapshot_not_ready [where s = "mount Integrated (Some sample_video) (Some sample_canvas)"
      and v = Integrated and now = sample_date and vid = sample_video and cnv = sample_canvas]
    takeSnapshot_not_ready [where s = "run Standalone [StartCamera (Granted 1 True)]
       (mount Standalone (Some (sample_video\<lparr>videoHeight := 0\<rparr>)) (Some sample_canvas))"
      and vid = "sample_video\<lparr>videoHeight := 0, srcObject := Some 0\<rparr>" and cnv = sample_canvas
      and v = Standalone and now = sample_date]
  by (simp add: evals)

text \<open>
  Claim C3. With the flag on, both references present, a preview frame of natural size
  \<open>W \<times> H\<close> with \<open>W > 0\<close> and \<open>H > 0\<close>, and a 2D context available, \<^verbatim>\<open>takeSnapshot\<close> sets the
  canvas to \<open>W \<times> H\<close>, draws the current frame onto it at the origin with that size, and
  triggers one download whose content is the canvas encoded as \<^verbatim>\<open>image/jpeg\<close> with the
  quality argument 0.9 and the dimensions \<open>W \<times> H\<close>.
\<close>

theorem takeSnapshot_captures:
  assumes "isCameraActive s" and "videoRef s = Some vid" and "canvasRef s = Some cnv"
    and "0 < videoWidth vid" and "0 < videoHeight vid" and "context2d cnv"
  shows "canvasRef (takeSnapshot v now s) =
           Some (cnv\<lparr>width := videoWidth vid, height := videoHeight vid,
                     bitmap := Some \<lparr>image = currentFrame vid, dx = 0, dy = 0,
                                      dWidth = videoWidth vid, dHeight = videoHeight vid\<rparr>\<rparr>) \<and>
         downloads (takeSnapshot v now s) =
           downloads s @
           [\<lparr>href = \<lparr>mime = ''image/jpeg'', quality = 9 / 10,
                     pixelWidth = videoWidth vid, pixelHeight = videoHeight vid,
                     pixels = Some \<lparr>image = currentFrame vid, dx = 0, dy = 0,
                                     dWidth = videoWidth vid, dHeight = videoHeight vid\<rparr>\<rparr>,
             download = downloadName v now\<rparr>] \<and>
         message (takeSnapshot v now s) = snapshot_message v"
  using assms
  by (simp add: takeSnapshot_def Let_def drawImage_def toDataURL_def downloadImage_def
      split: variant.splits)

theorem takeSnapshot_captures_witness:
  "downloads (takeSnapshot Integrated sample_date
     (run Integrated [StartCamera (Granted 1 True)]
        (mount Integrated (Some sample_video) (Some sample_canvas)))) =
     [\<lparr>href = \<lparr>mime = ''image/jpeg'', quality = 9 / 10, pixelWidth = 640, pixelHeight = 480,
               pixels = Some \<lparr>image = 7, dx = 0, dy = 0, dWidth = 640, dHeight = 480\<rparr>\<rparr>,
       download = downloadName Integrated sample_date\<rparr>] \<and>
   canvasRef (takeSnapshot Integrated sample_date
     (run Integrated [StartCamera (Granted 1 True)]
        (mount Integrated (Some sample_video) (Some sample_canvas)))) =
     Some \<lparr>width = 640, height = 480, context2d = True,
           bitmap = Some \<lparr>image = 7, dx = 0, dy = 0, dWidth = 640, dHeight = 480\<rparr>\<rparr>"
proof -
  let ?s = "run Integrated [StartCamera (Granted 1 True)]
        (mount Integrated (Some sample_video) (Some sample_canvas))"
  have "isCameraActive ?s" and "videoRef ?s = Some (sample_video\<lparr>srcObject := Some 0\<rparr>)"
    and "canvasRef ?s = Some sample_canvas" and "downloads ?s = []"
    and "0 < videoWidth (sample_video\<lparr>srcObject := Some 0\<rparr>)"
    and "0 < videoHeight (sample_video\<lparr>srcObject := Some 0\<rparr>)"
    and "context2d sample_canvas"
    by (simp_all add: evals)
  from takeSnapshot_captures [OF this(1,2,3,5,6,7), of Integrated sample_date] this(4)
  show ?thesis by (simp add: sample_video_def sample_canvas_def)
qed

text \<open>
  Claim C4. When \<^verbatim>\<open>startCamera\<close> fails (\<^verbatim>\<open>getUserMedia\<close> rejects, or \<^verbatim>\<open>play()\<close> rejects),
  the flag is off afterwards, the stored handle is the one stored before, so a controller
  that held none still holds none, no stream is released, and the error shown is the
  message that begins "Camera access denied or unavailable".
\<close>

theorem startCamera_failure_stays_idle:
  assumes "\<not> start_succeeds env s"
  shows "isCameraActive (step v (StartCamera env) s) = False \<and>
         stream (step v (StartCamera env) s) = stream s \<and>
         (stream s = None \<longrightarrow> stream (step v (StartCamera env) s) = None) \<and>
         released (step v (StartCamera env) s) = released s \<and>
         error (step v (StartCamera env) s) = Some (camera_error v) \<and>
         take 35 (camera_error v) = ''Camera access denied or unavailable''"
  using assms
  by (cases v) (simp_all add: step_StartCamera_fails camera_error_def)

theorem startCamera_failure_stays_idle_witness:
  "\<not> start_succeeds Rejected (mount Integrated (Some sample_video) (Some sample_canvas)) \<and>
   \<not> isCameraActive (step Integrated (StartCamera Rejected)
        (mount Integrated (Some sample_video) (Some sample_canvas))) \<and>
   stream (step Integrated (StartCamera Rejected)
        (mount Integrated (Some sample_video) (Some sample_canvas))) = None \<and>
   error (step Integrated (StartCamera Rejected)
        (mount Integrated (Some sample_video) (Some sample_canvas))) =
     Some ''Camera access denied or unavailable. Please check permissions.''"
  using startCamera_failure_stays_idle [of Rejected
      "mount Integrated (Some sample_video) (Some sample_canvas)" Integrated]
  by (simp add: mount_def camera_error_def)




text \<open>
  Claim C6. Take any session: after any sequence of calls on a freshly mounted controller, a
  \<^verbatim>\<open>startCamera\<close> that succeeds with a stream of at least one track stores the handle of
  that stream. Whatever calls follow, once the controller is torn down no track of that
  stream is live and the platform's log holds exactly one release of it: by the explicit
  \<^verbatim>\<open>stopCamera\<close>, by the cleanup that runs when the handle is replaced, or by the teardown
  itself when \<^verbatim>\<open>stopCamera\<close> was never called. A teardown after \<^verbatim>\<open>stopCamera\<close> changes
  nothing, stopping the tracks of a stream a second time changes nothing, and \<^verbatim>\<open>stop()\<close> on
  an ended track leaves it ended: no call fails on a double release.
\<close>

theorem session_released_once:
  assumes "0 < n" and "start_succeeds (Granted n ok) (run v cs (mount v vid cnv))"
  shows "stream (step v (StartCamera (Granted n ok)) (run v cs (mount v vid cnv))) =
           Some (length (streams (run v cs (mount v vid cnv)))) \<and>
         Live \<notin> set (streams (unmount (run v cs'
             (step v (StartCamera (Granted n ok)) (run v cs (mount v vid cnv))))) !
           length (streams (run v cs (mount v vid cnv)))) \<and>
         count_list (released (unmount (run v cs'
             (step v (StartCamera (Granted n ok)) (run v cs (mount v vid cnv))))))
           (length (streams (run v cs (mount v vid cnv)))) = 1 \<and>
         unmount (step v StopCamera s) = step v StopCamera s \<and>
         stopTracks i (stopTracks i s) = stopTracks i s \<and>
         track_stop (track_stop t) = track_stop t"
proof -
  let ?s0 = "run v cs (mount v vid cnv)"
  let ?s1 = "step v (StartCamera (Granted n ok)) ?s0"
  have wf0: "handles_valid ?s0" using handles_valid_mount by (rule handles_valid_run)
  then have valid: "\<forall>i. stream ?s0 = Some i \<longrightarrow> i < length (streams ?s0)"
    by (simp add: handles_valid_def)
  have a: "stream ?s1 = Some (length (streams ?s0))"
    using assms(2) valid by (rule step_StartCamera_succeeds)
  have "tracked (length (streams ?s0)) ?s1"
    using wf0 assms(2) assms(1) by (rule tracked_start)
  then have "tracked (length (streams ?s0)) (run v cs' ?s1)" by (rule tracked_run)
  then have "closed_once (length (streams ?s0)) (unmount (run v cs' ?s1))"
    by (rule tracked_unmount)
  then have b: "Live \<notin> set (streams (unmount (run v cs' ?s1)) ! length (streams ?s0))"
    and c: "count_list (released (unmount (run v cs' ?s1))) (length (streams ?s0)) = 1"
    by (simp_all add: closed_once_def)
  have "stream (step v StopCamera s) = None"
    by (cases "stream s") (simp_all add: step_StopCamera_None step_StopCamera_Some)
  then have d: "unmount (step v StopCamera s) = step v StopCamera s"
    by (simp add: unmount_def cleanup_def)
  have e: "stopTracks i (stopTracks i s) = stopTracks i s" by (rule stopTracks_twice)
  have f: "track_stop (track_stop t) = track_stop t" by (cases t) simp_all
  from a b c d e f show ?thesis by (intro conjI)
qed

theorem session_released_once_witness:
  "start_succeeds (Granted 1 True)
     (run Integrated [StartCamera Rejected]
        (mount Integrated (Some sample_video) (Some sample_canvas))) \<and>
   streams (unmount (run Integrated [TakeSnapshot sample_date]
     (step Integrated (StartCamera (Granted 1 True))
        (run Integrated [StartCamera Rejected]
           (mount Integrated (Some sample_video) (Some sample_canvas)))))) = [[Ended]] \<and>
   released (unmount (run Integrated [TakeSnapshot sample_date]
     (step Integrated (StartCamera (Granted 1 True))
        (run Integrated [StartCamera Rejected]
           (mount Integrated (Some sample_video) (Some sample_canvas)))))) = [0] \<and>
   count_list (released (unmount (run Integrated [TakeSnapshot sample_date]
     (step Integrated (StartCamera (Granted 1 True))
        (run Integrated [StartCamera Rejected]
           (mount Integrated (Some sample_video) (Some sample_canvas))))))) 0 = 1"
proof -
  let ?s0 = "run Integrated [StartCamera Rejected]
        (mount Integrated (Some sample_video) (Some sample_canvas))"
  let ?f = "unmount (run Integrated [TakeSnapshot sample_date]
     (step Integrated (StartCamera (Granted 1 True)) ?s0))"
  have ok: "start_succeeds (Granted 1 True) ?s0" by simp
  have len: "length (streams ?s0) = 0" by (simp add: evals)
  have s: "streams ?f = [[Ended]]" by (simp add: evals)
  have r: "released ?f = [0]" by (simp add: evals)
  have "count_list (released ?f) (length (streams ?s0)) = 1"
    by (rule session_released_once [OF zero_less_one ok,
          where cs' = "[TakeSnapshot sample_date]", THEN conjunct2, THEN conjunct2,
          THEN conjunct1])
  then have c: "count_list (released ?f) 0 = 1" unfolding len .
  from ok s r c show ?thesis by (intro conjI)
qed

text \<open>
  Claim C7. A \<^verbatim>\<open>takeSnapshot\<close> call, whether it captures or fails, leaves the stream handle,
  the flag, every track of every stream, the release log and the video element (with its
  attached stream) as they were; in an active session the flag stays on.
\<close>

theorem takeSnapshot_keeps_session:
  "stream (step v (TakeSnapshot now) s) = stream s \<and>
   isCameraActive (step v (TakeSnapshot now) s) = isCameraActive s \<and>
   streams (step v (TakeSnapshot now) s) = streams s \<and>
   released (step v (TakeSnapshot now) s) = released s \<and>
   videoRef (step v (TakeSnapshot now) s) = videoRef s"
  by (simp add: step_TakeSnapshot)

theorem takeSnapshot_keeps_session_witness:
  "isCameraActive (step Standalone (TakeSnapshot sample_date)
     (run Standalone [StartCamera (Granted 1 True)]
        (mount Standalone (Some sample_video) (Some sample_canvas)))) \<and>
   stream (step Standalone (TakeSnapshot sample_date)
     (run Standalone [StartCamera (Granted 1 True)]
        (mount Standalone (Some sample_video) (Some sample_canvas)))) = Some 0 \<and>
   streams (step Standalone (TakeSnapshot sample_date)
     (run Standalone [StartCamera (Granted 1 True)]
        (mount Standalone (Some sample_video) (Some sample_canvas)))) = [[Live]] \<and>
   released (step Standalone (TakeSnapshot sample_date)
     (run Standalone [StartCamera (Granted 1 True)]
        (mount Standalone (Some sample_video) (Some sample_canvas)))) = []"
  using takeSnapshot_keeps_session [of Standalone sample_date
      "run Standalone [StartCamera (Granted 1 True)]
        (mount Standalone (Some sample_video) (Some sample_canvas))"]
  by (simp add: evals)

text \<open>
  Claim C8. The file name \<^verbatim>\<open>downloadImage\<close> gives the download depends on the current instant
  alone, not on the image or on the state: the same instant gives the same name. The name
  contains no colon, and it is \<^verbatim>\<open>snapshot-\<close>, a body of decimal digits and the separators
  \<^verbatim>\<open>-\<close>, \<^verbatim>\<open>_\<close> and \<^verbatim>\<open>+\<close>, and \<^verbatim>\<open>.jpg\<close>. For a year of four digits the body is the ISO
  date \<^verbatim>\<open>YYYY-MM-DD\<close> in the stand-alone component and \<^verbatim>\<open>YYYY-MM-DD_HH-mm-ss\<close> in the
  integrated one.
\<close>

theorem downloadImage_filename:
  "download (last (downloads (downloadImage v now url s))) = downloadName v now \<and>
   CHR '':'' \<notin> set (downloadName v now) \<and>
   (\<exists>body. downloadName v now = ''snapshot-'' @ body @ ''.jpg'' \<and>
           set body \<subseteq> digits \<union> {CHR ''-'', CHR ''_'', CHR ''+''}) \<and>
   (0 \<le> year now \<and> year now \<le> 9999 \<longrightarrow>
      downloadName Standalone now =
        ''snapshot-'' @ dec 4 (nat (year now)) @ ''-'' @ dec 2 (month now) @ ''-'' @
        dec 2 (day now) @ ''.jpg'' \<and>
      downloadName Integrated now =
        ''snapshot-'' @ dec 4 (nat (year now)) @ ''-'' @ dec 2 (month now) @ ''-'' @
        dec 2 (day now) @ ''_'' @ dec 2 (hours now) @ ''-'' @ dec 2 (minutes now) @ ''-'' @
        dec 2 (seconds now) @ ''.jpg'')"
  using downloadName_body [of v now] downloadName_no_colon [of v now]
    downloadName_four_digit_year [of now]
  by (simp add: downloadImage_def)

theorem downloadImage_filename_witness:
  "downloadName Standalone sample_date = ''snapshot-2024-03-09.jpg'' \<and>
   downloadName Integrated sample_date = ''snapshot-2024-03-09_14-05-59.jpg'' \<and>
   CHR '':'' \<notin> set (downloadName Integrated sample_date) \<and>
   download (last (downloads (downloadImage Integrated sample_date
       (toDataURL ''image/jpeg'' (9 / 10) sample_canvas)
       (mount Integrated (Some sample_video) (Some sample_canvas))))) =
     ''snapshot-2024-03-09_14-05-59.jpg''"
proof -
  have y: "0 \<le> year sample_date \<and> year sample_date \<le> 9999"
    by (simp add: sample_date_def)
  have d: "dec 4 (nat (year sample_date)) = ''2024''" "dec 2 (month sample_date) = ''03''"
    "dec 2 (day sample_date) = ''09''" "dec 2 (hours sample_date) = ''14''"
    "dec 2 (minutes sample_date) = ''05''" "dec 2 (seconds sample_date) = ''59''"
    by (simp_all add: sample_date_def dec_2 dec_4 digit_char_def)
  from downloadImage_filename [of Integrated sample_date
      "toDataURL ''image/jpeg'' (9 / 10) sample_canvas"
      "mount Integrated (Some sample_video) (Some sample_canvas)"] y
  show ?thesis by (simp add: d)
qed

text \<open>
  Claim C9. The integrated component configures the uploader with exactly: accepted file
  types \<^verbatim>\<open>image/*\<close>, the fixed path \<^verbatim>\<open>picture-submissions/\<close>, at most one file, resumable
  transfer, and the access level \<^verbatim>\<open>public\<close>. On completion the success callback receives
  the stored object's key, shows it in the message and clears the error; the error callback
  receives the failure, logs it and shows the upload error, leaving the message as it was.
\<close>

theorem fileUploader_contract:
  "acceptedFileTypes fileUploader = [''image/*''] \<and>
   path fileUploader = ''picture-submissions/'' \<and>
   maxFileCount fileUploader = 1 \<and>
   isResumable fileUploader \<and>
   accessLevel fileUploader = ''public'' \<and>
   upload_completed (Stored key) s =
     s\<lparr>message := ''File '' @ [CHR 0x22] @ key @ [CHR 0x22] @
                    '' uploaded successfully to Amplify Storage!'',
       error := None\<rparr> \<and>
   upload_completed (UploadFailed e) s =
     s\<lparr>error := Some ''File upload failed. Check the console for details.'',
       console := console s @ [''FileUploader Error: '' @ e]\<rparr> \<and>
   message (upload_completed (UploadFailed e) s) = message s"
  by (simp add: fileUploader_def upload_completed_def onUploadSuccess_def onUploadError_def)

theorem fileUploader_contract_witness:
  "message (upload_completed (Stored ''picture-submissions/cat.jpg'')
      (mount Integrated (Some sample_video) (Some sample_canvas))) =
     ''File '' @ [CHR 0x22] @ ''picture-submissions/cat.jpg'' @ [CHR 0x22] @
     '' uploaded successfully to Amplify Storage!'' \<and>
   error (upload_completed (UploadFailed ''network'')
      (mount Integrated (Some sample_video) (Some sample_canvas))) =
     Some ''File upload failed. Check the console for details.'' \<and>
   maxFileCount fileUploader = 1"
  using fileUploader_contract [of "''picture-submissions/cat.jpg''"
      "mount Integrated (Some sample_video) (Some sample_canvas)" "''network''"]
  by simp

text \<open>
  Claim C10. With the video element present, let \<^verbatim>\<open>getUserMedia\<close> grant a stream and
  \<^verbatim>\<open>play()\<close> reject. Then \<^verbatim>\<open>startCamera\<close> leaves the flag off and shows the camera error;
  the stored handle is the one stored before and is not the new stream, which is attached
  to the video element with all its tracks live. Whatever calls follow, and after teardown
  as well, every track of that stream is still live and no release of it is logged.
\<close>

theorem failed_play_leaks_stream:
  "\<not> isCameraActive (step v (StartCamera (Granted n False)) (run v cs (mount v (Some vd) cnv))) \<and>
   error (step v (StartCamera (Granted n False)) (run v cs (mount v (Some vd) cnv))) =
     Some (camera_error v) \<and>
   stream (step v (StartCamera (Granted n False)) (run v cs (mount v (Some vd) cnv))) =
     stream (run v cs (mount v (Some vd) cnv)) \<and>
   stream (step v (StartCamera (Granted n False)) (run v cs (mount v (Some vd) cnv))) \<noteq>
     Some (length (streams (run v cs (mount v (Some vd) cnv)))) \<and>
   (\<exists>vd'. videoRef (step v (StartCamera (Granted n False)) (run v cs (mount v (Some vd) cnv))) =
            Some vd' \<and>
          srcObject vd' = Some (length (streams (run v cs (mount v (Some vd) cnv))))) \<and>
   streams (run v cs'
       (step v (StartCamera (Granted n False)) (run v cs (mount v (Some vd) cnv)))) !
     length (streams (run v cs (mount v (Some vd) cnv))) = replicate n Live \<and>
   length (streams (run v cs (mount v (Some vd) cnv))) \<notin>
     set (released (run v cs'
       (step v (StartCamera (Granted n False)) (run v cs (mount v (Some vd) cnv))))) \<and>
   streams (unmount (run v cs'
       (step v (StartCamera (Granted n False)) (run v cs (mount v (Some vd) cnv))))) !
     length (streams (run v cs (mount v (Some vd) cnv))) = replicate n Live \<and>
   length (streams (run v cs (mount v (Some vd) cnv))) \<notin>
     set (released (unmount (run v cs'
       (step v (StartCamera (Granted n False)) (run v cs (mount v (Some vd) cnv))))))"
proof -
  let ?s0 = "run v cs (mount v (Some vd) cnv)"
  let ?s1 = "step v (StartCamera (Granted n False)) ?s0"
  let ?l = "length (streams ?s0)"
  have wf0: "handles_valid ?s0" using handles_valid_mount by (rule handles_valid_run)
  have vr: "videoRef ?s0 \<noteq> None" by (simp add: videoRef_run mount_def)
  then have f: "\<not> start_succeeds (Granted n False) ?s0" by simp
  have a: "\<not> isCameraActive ?s1" "error ?s1 = Some (camera_error v)" "stream ?s1 = stream ?s0"
    using f by (simp_all add: step_StartCamera_fails)
  have lk: "leaked ?l n ?s1" using wf0 vr by (rule leaked_start)
  then have b: "stream ?s1 \<noteq> Some ?l" by (simp add: leaked_def)
  from vr obtain v0 where v0: "videoRef ?s0 = Some v0" by auto
  then have "videoRef ?s1 = Some (v0\<lparr>srcObject := Some ?l\<rparr>)"
    by (simp add: step_fields startCamera_def startCamera_catch_def Let_def)
  then have c: "\<exists>vd'. videoRef ?s1 = Some vd' \<and> srcObject vd' = Some ?l" by simp
  from lk have l2: "leaked ?l n (run v cs' ?s1)" by (rule leaked_run)
  then have d: "streams (run v cs' ?s1) ! ?l = replicate n Live"
    "?l \<notin> set (released (run v cs' ?s1))"
    by (simp_all add: leaked_def)
  have e: "streams (unmount (run v cs' ?s1)) ! ?l = replicate n Live"
    "?l \<notin> set (released (unmount (run v cs' ?s1)))"
    unfolding unmount_def using l2 by (rule leaked_cleanup)+
  from a b c d e show ?thesis by (intro conjI)
qed

theorem failed_play_leaks_stream_witness:
  "streams (unmount (run Standalone [StartCamera (Granted 1 True), StopCamera]
     (step Standalone (StartCamera (Granted 1 False))
        (run Standalone [] (mount Standalone (Some sample_video) (Some sample_canvas)))))) =
     [[Live], [Ended]] \<and>
   released (unmount (run Standalone [StartCamera (Granted 1 True), StopCamera]
     (step Standalone (StartCamera (Granted 1 False))
        (run Standalone [] (mount Standalone (Some sample_video) (Some sample_canvas)))))) = [1] \<and>
   streams (unmount (run Standalone [StartCamera (Granted 1 True), StopCamera]
     (step Standalone (StartCamera (Granted 1 False))
        (run Standalone [] (mount Standalone (Some sample_video) (Some sample_canvas)))))) !
     length (streams (run Standalone [] (mount Standalone (Some sample_video) (Some sample_canvas)))) =
     replicate 1 Live"
proof -
  let ?f = "unmount (run Standalone [StartCamera (Granted 1 True), StopCamera]
     (step Standalone (StartCamera (Granted 1 False))
        (run Standalone [] (mount Standalone (Some sample_video) (Some sample_canvas)))))"
  have s: "streams ?f = [[Live], [Ended]]" by (simp add: evals)
  have r: "released ?f = [1]" by (simp add: evals)
  have l: "streams ?f !
     length (streams (run Standalone [] (mount Standalone (Some sample_video) (Some sample_canvas)))) =
     replicate 1 Live"
    by (rule failed_play_leaks_stream [where v = Standalone and n = 1 and cs = "[]"
          and vd = sample_video and cnv = "Some sample_canvas"
          and cs' = "[StartCamera (Granted 1 True), StopCamera]",
          THEN conjunct2, THEN conjunct2, THEN conjunct2, THEN conjunct2, THEN conjunct2,
          THEN conjunct2, THEN conjunct2, THEN conjunct1])
  from s r l show ?thesis by (intro conjI)
qed

end
